theory Spec2Isabelle
  imports Main
begin

section \<open>Python string and path primitives used by the sources\<close>

text \<open>
  Strings are character lists. The primitives below are the operations of Python's
  \<^verbatim>\<open>str\<close> and \<^verbatim>\<open>os.path\<close> that \<^verbatim>\<open>src/main.py\<close> and
  \<^verbatim>\<open>tools/stdlib.py\<close> call, each with the behaviour Python gives it on every input
  (negative indices, absent characters, short strings).
\<close>

definition NL :: char where
  "NL = CHR 0x0A"

definition startswith :: "string \<Rightarrow> string \<Rightarrow> bool" where
  "startswith s p = (take (length p) s = p)"

definition endswith :: "string \<Rightarrow> string \<Rightarrow> bool" where
  "endswith s p = (length p \<le> length s \<and> drop (length s - length p) s = p)"

text \<open>\<^verbatim>\<open>p in s\<close> on strings: \<open>p\<close> occurs in \<open>s\<close> as a contiguous block.\<close>

fun contains :: "string \<Rightarrow> string \<Rightarrow> bool" where
  "contains [] p = (p = [])"
| "contains (c # cs) p = (startswith (c # cs) p \<or> contains cs p)"

text \<open>\<^verbatim>\<open>s.find(c)\<close> for a one-character \<open>c\<close>: the first index, or \<open>-1\<close>.\<close>

fun find :: "string \<Rightarrow> char \<Rightarrow> int" where
  "find [] c = - 1"
| "find (x # xs) c =
     (if x = c then 0 else (let r = find xs c in if r < 0 then - 1 else r + 1))"

text \<open>The slices \<^verbatim>\<open>s[:i]\<close>, \<^verbatim>\<open>s[i:]\<close> and \<^verbatim>\<open>s[i:j]\<close>; a negative index counts from the end
  and is clamped at the start of the string.\<close>

definition slice_index :: "string \<Rightarrow> int \<Rightarrow> nat" where
  "slice_index s i = (if 0 \<le> i then nat i else length s - nat (- i))"

definition slice_to :: "string \<Rightarrow> int \<Rightarrow> string" where
  "slice_to s i = take (slice_index s i) s"

definition slice_from :: "string \<Rightarrow> int \<Rightarrow> string" where
  "slice_from s i = drop (slice_index s i) s"

definition slice :: "string \<Rightarrow> int \<Rightarrow> int \<Rightarrow> string" where
  "slice s i j = drop (slice_index s i) (take (slice_index s j) s)"

text \<open>\<^verbatim>\<open>s.split(c)[0]\<close>: the text before the first \<open>c\<close>, all of \<open>s\<close> when there is none.\<close>

definition split_first :: "char \<Rightarrow> string \<Rightarrow> string" where
  "split_first c s = takeWhile (\<lambda>x. x \<noteq> c) s"

text \<open>\<^verbatim>\<open>s.replace(a, b)\<close> for one-character \<open>a\<close> and \<open>b\<close>.\<close>

definition replace_char :: "char \<Rightarrow> char \<Rightarrow> string \<Rightarrow> string" where
  "replace_char a b s = map (\<lambda>x. if x = a then b else x) s"

text \<open>\<^verbatim>\<open>os.path.join(a, b)\<close> of \<^verbatim>\<open>posixpath\<close>.\<close>

definition path_join :: "string \<Rightarrow> string \<Rightarrow> string" where
  "path_join a b =
     (if startswith b ''/'' then b
      else if a = [] \<or> endswith a ''/'' then a @ b
      else a @ ''/'' @ b)"

section \<open>\<^verbatim>\<open>src/main.py\<close>: LoggerWriter\<close>

text \<open>
  \<^verbatim>\<open>LoggerWriter\<close> wraps a writer callable. The model keeps the object's buffer
  \<^verbatim>\<open>_msg\<close> and, in \<open>written\<close>, the arguments of the calls made to \<^verbatim>\<open>_writer\<close> so far,
  oldest first.
\<close>

record LoggerWriter =
  written :: "string list"
  msg :: string

definition LoggerWriter_init :: LoggerWriter where
  "LoggerWriter_init = \<lparr>written = [], msg = []\<rparr>"

text \<open>The \<^verbatim>\<open>while '\n' in self._msg\<close> loop of \<^verbatim>\<open>write\<close>.\<close>

function write_loop :: "LoggerWriter \<Rightarrow> LoggerWriter" where
  "write_loop w =
     (if NL \<in> set (msg w) then
        (let pos = find (msg w) NL in
         write_loop (w\<lparr>written := written w @ [slice_to (msg w) pos],
                       msg := slice_from (msg w) (pos + 1)\<rparr>))
      else w)"
  by pat_completeness auto
termination
proof (relation "measure (\<lambda>w. length (msg w))")
  show "wf (measure (\<lambda>w. length (msg w)))" by simp
next
  fix w :: LoggerWriter and pos :: int
  assume mem: "NL \<in> set (msg w)" and pos: "pos = find (msg w) NL"
  have found: "c \<in> set s \<Longrightarrow> 0 \<le> find s c \<and> find s c < int (length s)" for s c
    by (induction s) (auto simp: Let_def)
  from found[OF mem] pos have "0 \<le> pos" "pos < int (length (msg w))" by simp_all
  then have "length (slice_from (msg w) (pos + 1)) < length (msg w)"
    by (simp add: slice_from_def slice_index_def)
  then show "(w\<lparr>written := written w @ [slice_to (msg w) pos],
                msg := slice_from (msg w) (pos + 1)\<rparr>, w) \<in> measure (\<lambda>w. length (msg w))"
    by simp
qed

declare write_loop.simps [simp del]

definition LoggerWriter_write :: "LoggerWriter \<Rightarrow> string \<Rightarrow> LoggerWriter" where
  "LoggerWriter_write w message = write_loop (w\<lparr>msg := msg w @ message\<rparr>)"

definition LoggerWriter_flush :: "LoggerWriter \<Rightarrow> LoggerWriter" where
  "LoggerWriter_flush w = (if msg w \<noteq> [] then w\<lparr>written := written w @ [msg w], msg := []\<rparr> else w)"

text \<open>A sequence of \<^verbatim>\<open>write\<close> calls, in order.\<close>

fun writes :: "LoggerWriter \<Rightarrow> string list \<Rightarrow> LoggerWriter" where
  "writes w [] = w"
| "writes w (m # ms) = writes (LoggerWriter_write w m) ms"

text \<open>
  The reading of the line-buffering contract that the implementation is compared with:
  the text cut at every newline, as \<^verbatim>\<open>s.split('\n')\<close> cuts it. The result is never
  empty; its last element is the text after the last newline.
\<close>

fun split_nl :: "string \<Rightarrow> string list" where
  "split_nl [] = [[]]"
| "split_nl (c # cs) =
     (if c = NL then [] # split_nl cs
      else (case split_nl cs of [] \<Rightarrow> [[c]] | l # ls \<Rightarrow> (c # l) # ls))"

section \<open>\<^verbatim>\<open>src/main.py\<close>: effects, errors and module-level state\<close>

text \<open>
  A window is identified by the identity of its \<^verbatim>\<open>KolibriView\<close> object, a number here.
  Every call that leaves the program (the toolkit, the network, the log, a subprocess, the
  system browser) is recorded as an event, in the order the code makes the calls. A log
  call is recorded with its level only.
\<close>

type_synonym window = nat

datatype level = DEBUG | INFO | WARNING

datatype event =
    Log level
  | UrlOpen string
  | CurlHead string
  | Sleep nat
  | EvaluateJavascript window string
  | GetViewState window
  | LoadUrl window string
  | ClearHistory window
  | WebbrowserOpen string
  | CreateWindow window string
  | ShowWindow window
  | StartServerThread nat
  | StartLoadThread
  | SuperShutdown window

datatype py_error = KeyError string | ValueError

definition KOLIBRI_ROOT_URL :: string where
  "KOLIBRI_ROOT_URL = ''http://localhost:5000''"

subsection \<open>Locale selection at import time\<close>

text \<open>
  The loop over \<^verbatim>\<open>languages_base\<close> (macOS only): a language whose catalog directory
  exists is kept; otherwise a tag with an underscore contributes its base language, the
  text before the first underscore.
\<close>

fun languages_loop :: "(string \<Rightarrow> bool) \<Rightarrow> string \<Rightarrow> string list \<Rightarrow> string list" where
  "languages_loop path_exists locale_root_dir [] = []"
| "languages_loop path_exists locale_root_dir (lang # rest) =
     (if path_exists (path_join locale_root_dir lang) then
        lang # languages_loop path_exists locale_root_dir rest
      else if CHR ''_'' \<in> set lang then
        split_first CHR ''_'' lang # languages_loop path_exists locale_root_dir rest
      else languages_loop path_exists locale_root_dir rest)"

text \<open>
  The outcome of the body of the \<^verbatim>\<open>try\<close> statement,
  \<^verbatim>\<open>t = gettext.translation('macapp', locale_root_dir, languages=languages, fallback=True)\<close>
  followed by \<^verbatim>\<open>t.info()\<close>. The call passes \<^verbatim>\<open>fallback=True\<close>: when no catalog file is
  found for the requested languages the library returns a \<^verbatim>\<open>NullTranslations\<close> object,
  whose \<^verbatim>\<open>info()\<close> is the empty dictionary, and raises nothing. A catalog that is found
  gives a \<^verbatim>\<open>GNUTranslations\<close> object whose \<^verbatim>\<open>info()\<close> is the catalog's metadata. Any
  exception (an unreadable or corrupt catalog) is the third outcome.
\<close>

datatype translation =
    NullTranslations
  | GNUTranslations "string \<rightharpoonup> string"
  | Raised

text \<open>The module-level \<^verbatim>\<open>locale_info\<close> after the \<^verbatim>\<open>try\<close>/\<^verbatim>\<open>except\<close>, and what was logged.\<close>

definition locale_info :: "translation \<Rightarrow> (string \<rightharpoonup> string) \<times> event list" where
  "locale_info t =
     (case t of
        NullTranslations \<Rightarrow> (Map.empty, [Log INFO])
      | GNUTranslations info \<Rightarrow> (info, [Log INFO])
      | Raised \<Rightarrow> ([''language'' \<mapsto> ''en_US''], [Log WARNING, Log INFO]))"

section \<open>\<^verbatim>\<open>src/main.py\<close>: Application\<close>

record Application =
  loader_url :: string
  kolibri_loaded :: bool
  view :: window
  windows :: "window list"
  port :: nat

definition start_server :: "nat \<Rightarrow> event list" where
  "start_server p = [Log INFO, StartServerThread p]"

text \<open>\<^verbatim>\<open>os.path.abspath(os.path.join('assets', '_load-{}.html'.format(lang_id)))\<close>, the expression
  \<^verbatim>\<open>setUp\<close> evaluates three times; \<open>abspath\<close> is \<^verbatim>\<open>os.path.abspath\<close> in the process's
  working directory.\<close>

definition loader_page_of :: "(string \<Rightarrow> string) \<Rightarrow> string \<Rightarrow> string" where
  "loader_page_of abspath lang_id = abspath (path_join ''assets'' (''_load-'' @ lang_id @ ''.html''))"

text \<open>
  \<^verbatim>\<open>Application.setUp\<close>. \<open>path_exists\<close> is \<^verbatim>\<open>os.path.exists\<close> on the file system the
  application runs on. The subscript \<^verbatim>\<open>locale_info['language']\<close> raises \<^verbatim>\<open>KeyError\<close> on
  a dictionary without that key. The main window is the first \<^verbatim>\<open>KolibriView\<close> object, 0.
\<close>

definition setUp ::
  "(string \<Rightarrow> bool) \<Rightarrow> (string \<Rightarrow> string) \<Rightarrow> (string \<rightharpoonup> string) \<Rightarrow>
   py_error + (Application \<times> event list)" where
  "setUp path_exists abspath linfo =
     (case linfo ''language'' of
        None \<Rightarrow> Inl (KeyError ''language'')
      | Some lang_id0 \<Rightarrow>
          (let loader_page0 = loader_page_of abspath lang_id0;
               lang_id1 = (if \<not> path_exists loader_page0
                           then split_first CHR ''-'' lang_id0 else lang_id0);
               loader_page1 = (if \<not> path_exists loader_page0
                               then loader_page_of abspath lang_id1 else loader_page0);
               loader_page2 = (if \<not> path_exists loader_page1
                               then loader_page_of abspath ''en_US'' else loader_page1);
               url = ''file://'' @ loader_page2
           in Inr (\<lparr>loader_url = url, kolibri_loaded = False, view = 0, windows = [0],
                     port = 5000\<rparr>,
                   [CreateWindow 0 url] @ start_server 5000 @ [StartLoadThread, ShowWindow 0])))"

subsection \<open>The window list\<close>

text \<open>
  \<^verbatim>\<open>MenuEventHandler.on_new_window\<close> and \<^verbatim>\<open>KolibriView.shutdown\<close>. The first argument
  is the value of \<^verbatim>\<open>pew.ui.get_app()\<close>, \<open>None\<close> when there is no application object. In
  \<open>on_new_window\<close>, \<open>w\<close> is the \<^verbatim>\<open>KolibriView\<close> object that
  \<^verbatim>\<open>create_kolibri_window\<close> constructs. \<^verbatim>\<open>list.remove\<close> takes out the first occurrence
  and raises \<^verbatim>\<open>ValueError\<close> when there is none.
\<close>

definition on_new_window :: "Application option \<Rightarrow> window \<Rightarrow> Application option \<times> event list" where
  "on_new_window app w =
     (case app of
        None \<Rightarrow> (None, [])
      | Some a \<Rightarrow>
          (Some (a\<lparr>windows := windows a @ [w]\<rparr>), [CreateWindow w KOLIBRI_ROOT_URL, ShowWindow w]))"

definition shutdown ::
  "Application option \<Rightarrow> window \<Rightarrow> py_error + (Application option \<times> event list)" where
  "shutdown app self =
     (case app of
        None \<Rightarrow> Inr (None, [SuperShutdown self])
      | Some a \<Rightarrow>
          if self \<notin> set (windows a) then Inl ValueError
          else (let a' = a\<lparr>windows := remove1 self (windows a)\<rparr>
                in if length (windows a') > 0 then Inr (Some a', [])
                   else Inr (Some a', [SuperShutdown self])))"

text \<open>
  A session of the user interface: the menu item New Window, and the closing of a window,
  on which the toolkit calls that window's \<^verbatim>\<open>shutdown\<close>. \<open>fresh\<close> is the identity the
  next \<^verbatim>\<open>KolibriView\<close> object gets; \<open>emitted\<close> collects the events.
\<close>

datatype ui_event = NewWindow | CloseWindow window

record ui =
  app :: Application
  fresh :: window
  emitted :: "event list"

definition ui_step :: "ui \<Rightarrow> ui_event \<Rightarrow> py_error + ui" where
  "ui_step u e =
     (case e of
        NewWindow \<Rightarrow>
          (case on_new_window (Some (app u)) (fresh u) of
             (Some a, es) \<Rightarrow> Inr (u\<lparr>app := a, fresh := Suc (fresh u), emitted := emitted u @ es\<rparr>)
           | (None, es) \<Rightarrow> Inr (u\<lparr>emitted := emitted u @ es\<rparr>))
      | CloseWindow w \<Rightarrow>
          (case shutdown (Some (app u)) w of
             Inl err \<Rightarrow> Inl err
           | Inr (Some a, es) \<Rightarrow> Inr (u\<lparr>app := a, emitted := emitted u @ es\<rparr>)
           | Inr (None, es) \<Rightarrow> Inr (u\<lparr>emitted := emitted u @ es\<rparr>)))"

fun ui_run :: "ui \<Rightarrow> ui_event list \<Rightarrow> py_error + ui" where
  "ui_run u [] = Inr u"
| "ui_run u (e # es) = (case ui_step u e of Inl err \<Rightarrow> Inl err | Inr u' \<Rightarrow> ui_run u' es)"

text \<open>The session right after \<^verbatim>\<open>setUp\<close>: one window, object 0, already constructed.\<close>

definition ui_start :: "Application \<Rightarrow> ui" where
  "ui_start a = \<lparr>app = a, fresh = Suc (view a), emitted = []\<rparr>"

text \<open>What every step keeps: the handles in the list are distinct and older than the next
  fresh one, and an empty list means that the toolkit's shutdown has been invoked.\<close>

definition ui_inv :: "ui \<Rightarrow> bool" where
  "ui_inv u \<longleftrightarrow>
     distinct (windows (app u)) \<and> list_all (\<lambda>w. w < fresh u) (windows (app u)) \<and>
     (windows (app u) = [] \<longrightarrow> (\<exists>w. SuperShutdown w \<in> set (emitted u)))"

subsection \<open>The web view delegate\<close>

definition should_load_url :: "string \<Rightarrow> bool \<times> event list" where
  "should_load_url url =
     (if startswith url ''http'' \<and> \<not> startswith url KOLIBRI_ROOT_URL
      then (False, [WebbrowserOpen url])
      else (True, []))"

definition page_loaded :: "Application \<Rightarrow> string \<Rightarrow> Application \<times> event list" where
  "page_loaded a url =
     (if \<not> kolibri_loaded a \<and> url \<noteq> loader_url a
      then (a\<lparr>kolibri_loaded := True\<rparr>, [ClearHistory (view a)])
      else (a, []))"

text \<open>The calls the toolkit makes to \<^verbatim>\<open>page_loaded\<close> during one run, in order.\<close>

fun page_loads :: "Application \<Rightarrow> string list \<Rightarrow> Application \<times> event list" where
  "page_loads a [] = (a, [])"
| "page_loads a (url # urls) =
     (let r = page_loaded a url; rest = page_loads (fst r) urls
      in (fst rest, snd r @ snd rest))"

subsection \<open>The readiness poller\<close>

text \<open>
  One call of the local function \<^verbatim>\<open>running\<close> meets one of two answers: \<^verbatim>\<open>urlopen\<close>
  returns, or it raises \<^verbatim>\<open>URLError\<close>, after which the exit status of
  \<^verbatim>\<open>curl -I\<close> decides. The server is given as the answer it has for the \<open>n\<close>-th call.
\<close>

datatype ping = Opened | URLError int

definition running :: "string \<Rightarrow> ping \<Rightarrow> bool \<times> event list" where
  "running home_url p =
     (case p of
        Opened \<Rightarrow> (True, [UrlOpen home_url])
      | URLError rc \<Rightarrow> (rc = 0, [UrlOpen home_url, Log INFO, CurlHead home_url]))"

text \<open>The local variables of \<^verbatim>\<open>wait_for_server\<close> that the loop changes.\<close>

record poll =
  time_spent :: nat
  load_retries :: nat

datatype flow = Proceed | Return

text \<open>
  The body of the \<^verbatim>\<open>while not running()\<close> loop: the new locals, whether the body ran to
  its end (\<open>Proceed\<close>) or left the function (\<open>Return\<close>), and the events.
\<close>

definition loop_body :: "window \<Rightarrow> nat \<Rightarrow> nat \<Rightarrow> poll \<Rightarrow> poll \<times> flow \<times> event list" where
  "loop_body v timeout max_retries st =
     (let spent = time_spent st + 1 in
      if spent > timeout then
        if load_retries st < max_retries then
          (\<lparr>time_spent = 0, load_retries = load_retries st + 1\<rparr>, Proceed,
           [Log INFO, Sleep 1, Log WARNING, EvaluateJavascript v ''show_retry()''])
        else
          (\<lparr>time_spent = spent, load_retries = load_retries st\<rparr>, Return,
           [Log INFO, Sleep 1, EvaluateJavascript v ''show_error()''])
      else
        (\<lparr>time_spent = spent, load_retries = load_retries st\<rparr>, Proceed, [Log INFO, Sleep 1]))"

text \<open>
  The loop, from its \<open>n\<close>-th test of \<^verbatim>\<open>running()\<close> on. \<open>Proceed\<close>: the test succeeded
  and control goes on after the loop; \<open>Return\<close>: the function returned from inside it.
\<close>

function wait_loop ::
  "(nat \<Rightarrow> ping) \<Rightarrow> window \<Rightarrow> string \<Rightarrow> nat \<Rightarrow> nat \<Rightarrow> nat \<Rightarrow> poll \<Rightarrow> flow \<times> event list" where
  "wait_loop srv v home_url timeout max_retries n st =
     (let r = running home_url (srv n) in
      if fst r then (Proceed, snd r)
      else
        (let b = loop_body v timeout max_retries st in
         if fst (snd b) = Return then (Return, snd r @ snd (snd b))
         else
           (let rest = wait_loop srv v home_url timeout max_retries (Suc n) (fst b)
            in (fst rest, snd r @ snd (snd b) @ snd rest))))"
  by pat_completeness auto
termination
  by (relation "measures [\<lambda>(srv, v, home_url, timeout, max_retries, n, st). max_retries - load_retries st,
                          \<lambda>(srv, v, home_url, timeout, max_retries, n, st). Suc timeout - time_spent st]")
     (auto simp: loop_body_def Let_def split: if_splits)

declare wait_loop.simps [simp del]

text \<open>
  \<^verbatim>\<open>Application.wait_for_server\<close>. \<open>saved_state\<close> is what the first call of
  \<^verbatim>\<open>self.view.get_view_state()\<close> returns; the second call, in the argument of
  \<^verbatim>\<open>logging.debug\<close>, only feeds the log line.
\<close>

definition wait_for_server :: "Application \<Rightarrow> (nat \<Rightarrow> ping) \<Rightarrow> (string \<rightharpoonup> string) \<Rightarrow> event list" where
  "wait_for_server a srv saved_state =
     (let home_url = KOLIBRI_ROOT_URL;
          timeout = 20;
          max_retries = 3;
          r = wait_loop srv (view a) home_url timeout max_retries 0
                \<lparr>time_spent = 0, load_retries = 0\<rparr>
      in if fst r = Return then snd r
         else snd r @ [GetViewState (view a), GetViewState (view a), Log DEBUG] @
              (case saved_state ''URL'' of
                 None \<Rightarrow> [LoadUrl (view a) home_url]
               | Some url \<Rightarrow>
                   if startswith url home_url then [LoadUrl (view a) url]
                   else [LoadUrl (view a) home_url]))"

text \<open>
  What an observer of a run sees of its events: the scripts handed to
  \<^verbatim>\<open>evaluate_javascript\<close>, the navigations (\<^verbatim>\<open>load_url\<close> calls), the number of
  requests (\<^verbatim>\<open>urlopen\<close> calls), of one-second sleeps and of \<^verbatim>\<open>get_view_state\<close> calls.
\<close>

fun signals :: "event list \<Rightarrow> string list" where
  "signals [] = []"
| "signals (EvaluateJavascript w s # es) = s # signals es"
| "signals (e # es) = signals es"

fun navigations :: "event list \<Rightarrow> (window \<times> string) list" where
  "navigations [] = []"
| "navigations (LoadUrl w u # es) = (w, u) # navigations es"
| "navigations (e # es) = navigations es"

fun requests :: "event list \<Rightarrow> nat" where
  "requests [] = 0"
| "requests (UrlOpen u # es) = Suc (requests es)"
| "requests (e # es) = requests es"

fun sleeps :: "event list \<Rightarrow> nat" where
  "sleeps [] = 0"
| "sleeps (Sleep n # es) = n + sleeps es"
| "sleeps (e # es) = sleeps es"


text \<open>
  Two servers for concrete runs: one that refuses every connection (\<^verbatim>\<open>curl\<close> exits with
  status 7), and one that refuses the first \<open>k\<close> requests and answers from then on.
\<close>

definition server_down :: "nat \<Rightarrow> ping" where
  "server_down n = URLError 7"




section \<open>\<^verbatim>\<open>tools/stdlib.py\<close>\<close>

definition excludes :: "string list" where
  "excludes =
     [''site-packages'', ''test'', ''encodings'', ''python-config'', ''__phello__'',
      ''__init__.py'', ''this'', ''distutils'', ''antigravity'', ''tkinter'', ''idlelib'',
      ''venv.__init__'']"

text \<open>\<^verbatim>\<open>os.path.join(top, nm)[len(std_lib)+1:-3].replace(os.sep, '.')\<close>\<close>

definition module_path :: "string \<Rightarrow> string \<Rightarrow> string \<Rightarrow> string" where
  "module_path std_lib top_dir nm =
     replace_char CHR ''/'' CHR ''.''
       (slice (path_join top_dir nm) (int (length std_lib) + 1) (- 3))"

text \<open>The loop \<^verbatim>\<open>for ex in excludes: if ex in module_path: exclude = True\<close>.\<close>

fun exclude_loop :: "string list \<Rightarrow> string \<Rightarrow> bool \<Rightarrow> bool" where
  "exclude_loop [] mp exclude = exclude"
| "exclude_loop (ex # exs) mp exclude =
     exclude_loop exs mp (if contains mp ex then True else exclude)"

text \<open>The text appended for one module: the template with its placeholder filled.\<close>

definition import_stmt :: "string \<Rightarrow> string" where
  "import_stmt mp =
     [NL] @ ''try:'' @ [NL] @ ''    import '' @ mp @ [NL] @ ''except:'' @ [NL] @
     ''    pass'' @ [NL] @ ''    ''"

fun files_loop :: "string \<Rightarrow> string \<Rightarrow> string list \<Rightarrow> string \<Rightarrow> string" where
  "files_loop std_lib top_dir [] script = script"
| "files_loop std_lib top_dir (nm # files) script =
     (let mp = module_path std_lib top_dir nm;
          exclude = exclude_loop excludes mp False
      in files_loop std_lib top_dir files
           (if endswith nm ''.py'' \<and> \<not> exclude then script @ import_stmt mp else script))"

text \<open>The outer loop over \<^verbatim>\<open>os.walk(std_lib)\<close>, given as the triples it yields.\<close>

fun walk_loop :: "string \<Rightarrow> (string \<times> string list \<times> string list) list \<Rightarrow> string \<Rightarrow> string" where
  "walk_loop std_lib [] script = script"
| "walk_loop std_lib ((top_dir, dirs, files) # rest) script =
     walk_loop std_lib rest (files_loop std_lib top_dir files script)"

text \<open>\<^verbatim>\<open>generate_stdlib_imports\<close>: the text written to \<^verbatim>\<open>src/stdlib_imports.py\<close>.\<close>

definition generate_stdlib_imports ::
  "string \<Rightarrow> (string \<times> string list \<times> string list) list \<Rightarrow> string" where
  "generate_stdlib_imports std_lib walk = walk_loop std_lib walk []"

section \<open>Properties of the string primitives\<close>

lemma startswith_iff: "startswith s p \<longleftrightarrow> (\<exists>r. s = p @ r)"
proof
  assume "startswith s p"
  then have "s = p @ drop (length p) s"
    by (metis append_take_drop_id startswith_def)
  then show "\<exists>r. s = p @ r" ..
next
  assume "\<exists>r. s = p @ r"
  then show "startswith s p" by (auto simp: startswith_def)
qed

lemma find_takeWhile:
  "c \<in> set s \<Longrightarrow> find s c = int (length (takeWhile (\<lambda>x. x \<noteq> c) s))"
  by (induction s) (auto simp: Let_def)

lemma slice_to_find:
  assumes "c \<in> set s"
  shows "slice_to s (find s c) = takeWhile (\<lambda>x. x \<noteq> c) s"
proof -
  from assms have "slice_to s (find s c) = take (length (takeWhile (\<lambda>x. x \<noteq> c) s)) s"
    by (simp add: find_takeWhile slice_to_def slice_index_def)
  then show ?thesis by (simp only: takeWhile_eq_take[symmetric])
qed

lemma slice_from_find:
  assumes "c \<in> set s"
  shows "slice_from s (find s c + 1) = tl (dropWhile (\<lambda>x. x \<noteq> c) s)"
proof -
  from assms have "slice_from s (find s c + 1) = drop (Suc (length (takeWhile (\<lambda>x. x \<noteq> c) s))) s"
    by (simp add: find_takeWhile slice_from_def slice_index_def nat_add_distrib)
  also have "\<dots> = tl (drop (length (takeWhile (\<lambda>x. x \<noteq> c) s)) s)"
    by (simp add: drop_Suc tl_drop)
  finally show ?thesis by (simp only: dropWhile_eq_drop[symmetric])
qed

section \<open>Properties of LoggerWriter\<close>

lemma split_nl_not_Nil: "split_nl s \<noteq> []"
  by (induction s) (auto split: list.splits)

lemma split_nl_no_newline: "NL \<notin> set s \<Longrightarrow> split_nl s = [s]"
  by (induction s) auto

lemma split_nl_newline:
  "NL \<in> set s \<Longrightarrow>
   split_nl s = takeWhile (\<lambda>x. x \<noteq> NL) s # split_nl (tl (dropWhile (\<lambda>x. x \<noteq> NL) s))"
  by (induction s) (auto simp: split_nl_not_Nil split: list.splits)

lemma split_nl_lines_no_newline: "l \<in> set (split_nl s) \<Longrightarrow> NL \<notin> set l"
  by (induction s arbitrary: l) (auto simp: split_nl_not_Nil split: list.splits if_splits)

lemma split_nl_last_no_newline: "NL \<notin> set (last (split_nl s))"
  using split_nl_lines_no_newline[of "last (split_nl s)" s] by (simp add: split_nl_not_Nil)

lemma length_split_nl: "length (split_nl s) = Suc (count_list s NL)"
  by (induction s) (auto simp: split_nl_not_Nil split: list.splits)

lemma split_nl_append:
  "split_nl (a @ b) = butlast (split_nl a) @ split_nl (last (split_nl a) @ b)"
  by (induction a) (auto simp: split_nl_not_Nil split: list.splits)

text \<open>Putting the newlines back gives the text: nothing is lost and nothing invented.\<close>

lemma split_nl_rejoin:
  "concat (map (\<lambda>l. l @ [NL]) (butlast (split_nl s))) @ last (split_nl s) = s"
  by (induction s) (auto simp: split_nl_not_Nil split: list.splits)

lemma write_loop_split:
  "write_loop w =
   w\<lparr>written := written w @ butlast (split_nl (msg w)), msg := last (split_nl (msg w))\<rparr>"
proof (induction w rule: write_loop.induct)
  case (1 w)
  show ?case
  proof (cases "NL \<in> set (msg w)")
    case True
    then show ?thesis
      using "1.IH"[OF True refl]
      by (subst write_loop.simps)
         (simp add: slice_to_find slice_from_find split_nl_newline split_nl_not_Nil)
  next
    case False
    then show ?thesis
      by (subst write_loop.simps) (simp add: split_nl_no_newline)
  qed
qed

lemma writes_split:
  "NL \<notin> set (msg w) \<Longrightarrow>
   writes w ms = w\<lparr>written := written w @ butlast (split_nl (msg w @ concat ms)),
                   msg := last (split_nl (msg w @ concat ms))\<rparr>"
proof (induction ms arbitrary: w)
  case Nil
  then show ?case by (simp add: split_nl_no_newline)
next
  case (Cons m ms)
  let ?w = "LoggerWriter_write w m"
  have w': "?w = w\<lparr>written := written w @ butlast (split_nl (msg w @ m)),
                    msg := last (split_nl (msg w @ m))\<rparr>"
    by (simp add: LoggerWriter_write_def write_loop_split)
  have "NL \<notin> set (msg ?w)" by (simp add: w' split_nl_last_no_newline)
  moreover have "split_nl (msg w @ m @ concat ms) =
      butlast (split_nl (msg w @ m)) @ split_nl (last (split_nl (msg w @ m)) @ concat ms)"
    using split_nl_append[of "msg w @ m" "concat ms"] by simp
  ultimately show ?case
    using Cons.IH[of ?w] by (simp add: w' butlast_append split_nl_not_Nil)
qed

text \<open>
  C9. After any sequence \<open>ms\<close> of \<^verbatim>\<open>write\<close> calls on a new \<^verbatim>\<open>LoggerWriter\<close>: the calls made
  to the writer are the newline-terminated segments of the concatenated input, in order and
  without their newlines, one call per newline; the buffer is the text after the last
  newline and holds no newline; the calls, each with its newline put back, followed by the
  buffer, are the input. \<^verbatim>\<open>flush\<close> on any object calls the writer once with the buffer and
  empties it when the buffer is not empty, and does nothing otherwise.
\<close>

theorem LoggerWriter_line_buffering:
  "writes LoggerWriter_init ms =
     \<lparr>written = butlast (split_nl (concat ms)), msg = last (split_nl (concat ms))\<rparr>
   \<and> length (written (writes LoggerWriter_init ms)) = count_list (concat ms) NL
   \<and> (\<forall>l \<in> set (written (writes LoggerWriter_init ms)). NL \<notin> set l)
   \<and> NL \<notin> set (msg (writes LoggerWriter_init ms))
   \<and> concat (map (\<lambda>l. l @ [NL]) (written (writes LoggerWriter_init ms)))
       @ msg (writes LoggerWriter_init ms) = concat ms
   \<and> LoggerWriter_flush w =
       (if msg w = [] then w else w\<lparr>written := written w @ [msg w], msg := []\<rparr>)"
proof -
  have run: "writes LoggerWriter_init ms =
      \<lparr>written = butlast (split_nl (concat ms)), msg = last (split_nl (concat ms))\<rparr>"
    using writes_split[of LoggerWriter_init ms] by (simp add: LoggerWriter_init_def)
  have count: "length (butlast (split_nl (concat ms))) = count_list (concat ms) NL"
    by (simp add: length_split_nl)
  have lines: "\<forall>l \<in> set (butlast (split_nl (concat ms))). NL \<notin> set l"
    by (meson in_set_butlastD split_nl_lines_no_newline)
  show ?thesis
    unfolding run
    using count lines split_nl_last_no_newline[of "concat ms"] split_nl_rejoin[of "concat ms"]
    by (simp add: LoggerWriter_flush_def)
qed

theorem LoggerWriter_line_buffering_witness:
  "writes LoggerWriter_init [''ab'', ''c'' @ [NL] @ ''d'' @ [NL, NL], ''e''] =
     \<lparr>written = [''abc'', ''d'', []], msg = ''e''\<rparr>
   \<and> LoggerWriter_flush \<lparr>written = [''abc'', ''d'', []], msg = ''e''\<rparr> =
     \<lparr>written = [''abc'', ''d'', [], ''e''], msg = []\<rparr>"
  using LoggerWriter_line_buffering
    [of "[''ab'', ''c'' @ [NL] @ ''d'' @ [NL, NL], ''e'']"
        "\<lparr>written = [''abc'', ''d'', []], msg = ''e''\<rparr>"]
  by (simp add: NL_def)

section \<open>Properties of the web view delegate\<close>

text \<open>
  C8. For every URL, \<^verbatim>\<open>should_load_url\<close> answers \<open>False\<close> and hands the URL to the system
  browser exactly when the URL starts with \<^verbatim>\<open>http\<close> and does not start with the Kolibri
  root URL; in every other case it answers \<open>True\<close> and calls nothing. The loader's
  \<^verbatim>\<open>file://\<close> URL and every URL that starts with the root URL are loaded.
\<close>

theorem should_load_url_external_only:
  "should_load_url url =
     (if (\<exists>r. url = ''http'' @ r) \<and> \<not> (\<exists>r. url = ''http://localhost:5000'' @ r)
      then (False, [WebbrowserOpen url]) else (True, []))
   \<and> should_load_url (''file://'' @ p) = (True, [])
   \<and> should_load_url (KOLIBRI_ROOT_URL @ q) = (True, [])"
proof -
  have "should_load_url (''file://'' @ p) = (True, [])"
    by (simp add: should_load_url_def startswith_def)
  moreover have "should_load_url (KOLIBRI_ROOT_URL @ q) = (True, [])"
    by (simp add: should_load_url_def startswith_iff)
  moreover have "should_load_url url =
     (if (\<exists>r. url = ''http'' @ r) \<and> \<not> (\<exists>r. url = ''http://localhost:5000'' @ r)
      then (False, [WebbrowserOpen url]) else (True, []))"
    unfolding should_load_url_def startswith_iff KOLIBRI_ROOT_URL_def ..
  ultimately show ?thesis by blast
qed

theorem should_load_url_external_only_witness:
  "should_load_url ''https://learningequality.org/'' =
     (False, [WebbrowserOpen ''https://learningequality.org/''])
   \<and> should_load_url ''file:///app/assets/_load-en_US.html'' = (True, [])
   \<and> should_load_url ''http://localhost:5000/learn'' = (True, [])"
  using should_load_url_external_only
    [of "''https://learningequality.org/''" "''/app/assets/_load-en_US.html''" "''/learn''"]
  by (simp add: KOLIBRI_ROOT_URL_def)

lemma page_loads_append:
  "page_loads a (xs @ ys) =
     (fst (page_loads (fst (page_loads a xs)) ys),
      snd (page_loads a xs) @ snd (page_loads (fst (page_loads a xs)) ys))"
  by (induction xs arbitrary: a) (simp_all add: Let_def)

lemma page_loads_loader_only:
  "\<forall>u \<in> set urls. u = loader_url a \<Longrightarrow> page_loads a urls = (a, [])"
  by (induction urls) (simp_all add: Let_def page_loaded_def)

lemma page_loads_after_loaded:
  "kolibri_loaded a \<Longrightarrow> page_loads a urls = (a, [])"
  by (induction urls) (simp_all add: Let_def page_loaded_def)

lemma page_loads_events:
  "snd (page_loads a urls) =
     (if \<not> kolibri_loaded a \<and> (\<exists>u \<in> set urls. u \<noteq> loader_url a)
      then [ClearHistory (view a)] else [])"
proof (induction urls)
  case Nil
  then show ?case by simp
next
  case (Cons url urls)
  show ?case
  proof (cases "\<not> kolibri_loaded a \<and> url \<noteq> loader_url a")
    case True
    then have "page_loaded a url = (a\<lparr>kolibri_loaded := True\<rparr>, [ClearHistory (view a)])"
      by (simp add: page_loaded_def)
    with True show ?thesis
      by (simp add: Let_def page_loads_after_loaded)
  next
    case False
    then have "page_loaded a url = (a, [])"
      by (auto simp: page_loaded_def)
    with False Cons.IH show ?thesis
      by (auto simp: Let_def)
  qed
qed

text \<open>
  C10. In a run whose calls of \<^verbatim>\<open>page_loaded\<close> are first some calls with the loader URL,
  then a call with another URL, then any calls at all, and which starts with the flag
  \<^verbatim>\<open>kolibri_loaded\<close> unset as \<^verbatim>\<open>setUp\<close> leaves it: the history of the main view is
  cleared exactly once in the whole run, by the first call whose URL differs from the loader
  URL, which also sets the flag; the calls before it clear nothing; all calls after it,
  whatever their URL, clear nothing and leave the flag set; a call with the loader URL never
  clears the history. For any run at all, the history is cleared once when the flag is
  unset and some call has a URL other than the loader URL, and not at all otherwise.
\<close>

theorem page_loaded_clears_history_once:
  assumes "\<not> kolibri_loaded a"
    and "\<forall>u \<in> set before. u = loader_url a"
    and "url \<noteq> loader_url a"
  shows "page_loads a (before @ url # after) =
           (a\<lparr>kolibri_loaded := True\<rparr>, [ClearHistory (view a)])
       \<and> page_loads a before = (a, [])
       \<and> page_loaded a url = (a\<lparr>kolibri_loaded := True\<rparr>, [ClearHistory (view a)])
       \<and> page_loads (a\<lparr>kolibri_loaded := True\<rparr>) after = (a\<lparr>kolibri_loaded := True\<rparr>, [])
       \<and> page_loaded b (loader_url b) = (b, [])
       \<and> snd (page_loads b urls) =
           (if \<not> kolibri_loaded b \<and> (\<exists>u \<in> set urls. u \<noteq> loader_url b)
            then [ClearHistory (view b)] else [])"
proof -
  have pre: "page_loads a before = (a, [])"
    using assms(2) by (rule page_loads_loader_only)
  have first: "page_loaded a url = (a\<lparr>kolibri_loaded := True\<rparr>, [ClearHistory (view a)])"
    using assms(1,3) by (simp add: page_loaded_def)
  have post: "page_loads (a\<lparr>kolibri_loaded := True\<rparr>) after = (a\<lparr>kolibri_loaded := True\<rparr>, [])"
    by (rule page_loads_after_loaded) simp
  have whole: "page_loads a (before @ url # after) =
      (a\<lparr>kolibri_loaded := True\<rparr>, [ClearHistory (view a)])"
    by (simp add: page_loads_append pre first post Let_def)
  have loader: "page_loaded b (loader_url b) = (b, [])"
    by (simp add: page_loaded_def)
  from whole pre first post loader page_loads_events[of b urls] show ?thesis
    by blast
qed

theorem page_loaded_clears_history_once_witness:
  "page_loads
     \<lparr>loader_url = ''file:///app/assets/_load-en_US.html'', kolibri_loaded = False,
       view = 0, windows = [0], port = 5000\<rparr>
     [''file:///app/assets/_load-en_US.html'', ''http://localhost:5000'',
      ''http://localhost:5000/learn'', ''file:///app/assets/_load-en_US.html''] =
   (\<lparr>loader_url = ''file:///app/assets/_load-en_US.html'', kolibri_loaded = True,
      view = 0, windows = [0], port = 5000\<rparr>, [ClearHistory 0])"
  using page_loaded_clears_history_once
    [of "\<lparr>loader_url = ''file:///app/assets/_load-en_US.html'', kolibri_loaded = False,
           view = 0, windows = [0], port = 5000\<rparr>"
        "[''file:///app/assets/_load-en_US.html'']"
        "''http://localhost:5000''"
        "[''http://localhost:5000/learn'', ''file:///app/assets/_load-en_US.html'']"]
  by simp

section \<open>Properties of the window list\<close>

lemma ui_step_NewWindow:
  "ui_step u NewWindow =
     Inr (u\<lparr>app := (app u)\<lparr>windows := windows (app u) @ [fresh u]\<rparr>, fresh := Suc (fresh u),
            emitted := emitted u @ [CreateWindow (fresh u) KOLIBRI_ROOT_URL, ShowWindow (fresh u)]\<rparr>)"
  by (simp add: ui_step_def on_new_window_def)

lemma ui_step_CloseWindow:
  "ui_step u (CloseWindow w) =
     (if w \<notin> set (windows (app u)) then Inl ValueError
      else Inr (u\<lparr>app := (app u)\<lparr>windows := remove1 w (windows (app u))\<rparr>,
                  emitted := emitted u @
                    (if remove1 w (windows (app u)) = [] then [SuperShutdown w] else [])\<rparr>))"
  by (simp add: ui_step_def shutdown_def Let_def)

lemma ui_step_inv:
  assumes "ui_inv u" and "ui_step u e = Inr u'"
  shows "ui_inv u'"
proof (cases e)
  case NewWindow
  with assms show ?thesis
    by (auto simp: ui_step_NewWindow ui_inv_def list_all_iff less_Suc_eq)
next
  case (CloseWindow w)
  with assms show ?thesis
    by (auto simp: ui_step_CloseWindow ui_inv_def list_all_iff split: if_splits)
qed

lemma ui_step_fresh:
  assumes "ui_step u e = Inr u'"
  shows "fresh u \<le> fresh u'"
  using assms by (cases e) (auto simp: ui_step_NewWindow ui_step_CloseWindow split: if_splits)

lemma ui_run_fresh:
  "ui_run u evs = Inr u' \<Longrightarrow> fresh u \<le> fresh u'"
proof (induction evs arbitrary: u)
  case Nil
  then show ?case by simp
next
  case (Cons e evs)
  then obtain u1 where s: "ui_step u e = Inr u1" and r: "ui_run u1 evs = Inr u'"
    by (auto split: sum.splits)
  from ui_step_fresh[OF s] Cons.IH[OF r] show ?case by simp
qed

lemma ui_run_inv:
  "ui_inv u \<Longrightarrow> ui_run u evs = Inr u' \<Longrightarrow> ui_inv u'"
proof (induction evs arbitrary: u)
  case Nil
  then show ?case by simp
next
  case (Cons e evs)
  then obtain u1 where s: "ui_step u e = Inr u1" and r: "ui_run u1 evs = Inr u'"
    by (auto split: sum.splits)
  from Cons.IH[OF ui_step_inv[OF Cons.prems(1) s] r] show ?case .
qed

text \<open>The list holds the windows that were opened and have not been closed.\<close>

lemma ui_run_windows:
  "ui_inv u \<Longrightarrow> ui_run u evs = Inr u' \<Longrightarrow>
   set (windows (app u')) =
     (set (windows (app u)) \<union> {fresh u ..< fresh u'}) - {w. CloseWindow w \<in> set evs}"
proof (induction evs arbitrary: u)
  case Nil
  then show ?case by simp
next
  case (Cons e evs)
  then obtain u1 where s: "ui_step u e = Inr u1" and r: "ui_run u1 evs = Inr u'"
    by (auto split: sum.splits)
  note inv1 = ui_step_inv[OF Cons.prems(1) s]
  note IH = Cons.IH[OF inv1 r]
  note mono = ui_run_fresh[OF r]
  show ?case
  proof (cases e)
    case NewWindow
    with s have u1: "windows (app u1) = windows (app u) @ [fresh u]" "fresh u1 = Suc (fresh u)"
      by (auto simp: ui_step_NewWindow)
    from mono u1 have "{fresh u ..< fresh u'} = insert (fresh u) {fresh u1 ..< fresh u'}"
      by auto
    with IH u1 NewWindow show ?thesis by auto
  next
    case (CloseWindow w)
    with s have mem: "w \<in> set (windows (app u))"
      and u1: "windows (app u1) = remove1 w (windows (app u))" "fresh u1 = fresh u"
      by (auto simp: ui_step_CloseWindow split: if_splits)
    from Cons.prems(1) mem have "w < fresh u" "distinct (windows (app u))"
      by (auto simp: ui_inv_def list_all_iff)
    with IH u1 CloseWindow show ?thesis by auto
  qed
qed

text \<open>
  C5. In every state that a session reaches from the state \<^verbatim>\<open>setUp\<close> leaves (one window,
  the main view, in the list), by opening windows and closing open ones: the handles in the
  list are distinct, and they are exactly the windows opened so far and not closed; the list
  is empty only if the toolkit's shutdown has been invoked; opening a window appends exactly
  the new handle; closing a window of the list removes exactly that handle, and invokes the
  toolkit's shutdown exactly when the list is empty afterwards, which happens exactly when
  the closed window was the only one in the list.
\<close>

theorem window_list_lifecycle:
  assumes "windows a0 = [view a0]"
    and "ui_run (ui_start a0) evs = Inr u"
  shows "distinct (windows (app u))
       \<and> set (windows (app u)) = {view a0 ..< fresh u} - {w. CloseWindow w \<in> set evs}
       \<and> (windows (app u) = [] \<longrightarrow> (\<exists>w. SuperShutdown w \<in> set (emitted u)))
       \<and> on_new_window (Some (app u)) (fresh u) =
           (Some ((app u)\<lparr>windows := windows (app u) @ [fresh u]\<rparr>),
            [CreateWindow (fresh u) KOLIBRI_ROOT_URL, ShowWindow (fresh u)])
       \<and> (\<forall>w \<in> set (windows (app u)).
             shutdown (Some (app u)) w =
               Inr (Some ((app u)\<lparr>windows := remove1 w (windows (app u))\<rparr>),
                    if remove1 w (windows (app u)) = [] then [SuperShutdown w] else [])
           \<and> set (remove1 w (windows (app u))) = set (windows (app u)) - {w}
           \<and> (remove1 w (windows (app u)) = [] \<longleftrightarrow> set (windows (app u)) = {w}))"
proof -
  have inv0: "ui_inv (ui_start a0)"
    using assms(1) by (simp add: ui_inv_def ui_start_def)
  note inv = ui_run_inv[OF inv0 assms(2)]
  then have d: "distinct (windows (app u))"
    by (simp add: ui_inv_def)
  from ui_run_fresh[OF assms(2)] have "Suc (view a0) \<le> fresh u"
    by (simp add: ui_start_def)
  then have "{view a0} \<union> {Suc (view a0) ..< fresh u} = {view a0 ..< fresh u}"
    by auto
  with ui_run_windows[OF inv0 assms(2)] assms(1)
  have s: "set (windows (app u)) = {view a0 ..< fresh u} - {w. CloseWindow w \<in> set evs}"
    by (simp add: ui_start_def)
  from inv have e: "windows (app u) = [] \<longrightarrow> (\<exists>w. SuperShutdown w \<in> set (emitted u))"
    by (simp add: ui_inv_def)
  have n: "on_new_window (Some (app u)) (fresh u) =
           (Some ((app u)\<lparr>windows := windows (app u) @ [fresh u]\<rparr>),
            [CreateWindow (fresh u) KOLIBRI_ROOT_URL, ShowWindow (fresh u)])"
    by (simp add: on_new_window_def)
  have c: "shutdown (Some (app u)) w =
               Inr (Some ((app u)\<lparr>windows := remove1 w (windows (app u))\<rparr>),
                    if remove1 w (windows (app u)) = [] then [SuperShutdown w] else [])
           \<and> set (remove1 w (windows (app u))) = set (windows (app u)) - {w}
           \<and> (remove1 w (windows (app u)) = [] \<longleftrightarrow> set (windows (app u)) = {w})"
    if "w \<in> set (windows (app u))" for w
  proof -
    have "shutdown (Some (app u)) w =
               Inr (Some ((app u)\<lparr>windows := remove1 w (windows (app u))\<rparr>),
                    if remove1 w (windows (app u)) = [] then [SuperShutdown w] else [])"
      using that by (simp add: shutdown_def Let_def)
    moreover have r: "set (remove1 w (windows (app u))) = set (windows (app u)) - {w}"
      using d by simp
    moreover have "remove1 w (windows (app u)) = [] \<longleftrightarrow> set (windows (app u)) = {w}"
      using r that by (metis Diff_cancel Diff_eq_empty_iff insert_Diff set_empty subset_singletonD empty_iff)
    ultimately show ?thesis by blast
  qed
  from d s e n c show ?thesis by blast
qed

theorem window_list_lifecycle_witness:
  "windows \<lparr>loader_url = ''file:///l.html'', kolibri_loaded = False, view = 0, windows = [0],
             port = 5000\<rparr> =
     [view \<lparr>loader_url = ''file:///l.html'', kolibri_loaded = False, view = 0, windows = [0],
             port = 5000\<rparr>]
   \<and> ui_run (ui_start \<lparr>loader_url = ''file:///l.html'', kolibri_loaded = False, view = 0,
                          windows = [0], port = 5000\<rparr>)
        [NewWindow, NewWindow, CloseWindow 0, CloseWindow 2] =
       Inr \<lparr>app = \<lparr>loader_url = ''file:///l.html'', kolibri_loaded = False, view = 0,
                    windows = [1], port = 5000\<rparr>,
            fresh = 3,
            emitted = [CreateWindow 1 KOLIBRI_ROOT_URL, ShowWindow 1,
                       CreateWindow 2 KOLIBRI_ROOT_URL, ShowWindow 2]\<rparr>
   \<and> shutdown (Some \<lparr>loader_url = ''file:///l.html'', kolibri_loaded = False, view = 0,
                       windows = [1], port = 5000\<rparr>) 1 =
       Inr (Some \<lparr>loader_url = ''file:///l.html'', kolibri_loaded = False, view = 0,
                  windows = [], port = 5000\<rparr>, [SuperShutdown 1])"
proof -
  let ?a = "\<lparr>loader_url = ''file:///l.html'', kolibri_loaded = False, view = 0, windows = [0],
             port = 5000\<rparr>"
  let ?u = "\<lparr>app = \<lparr>loader_url = ''file:///l.html'', kolibri_loaded = False, view = 0,
                    windows = [1], port = 5000\<rparr>,
            fresh = 3,
            emitted = [CreateWindow 1 KOLIBRI_ROOT_URL, ShowWindow 1,
                       CreateWindow 2 KOLIBRI_ROOT_URL, ShowWindow 2]\<rparr>"
  have h1: "windows ?a = [view ?a]" by simp
  have h2: "ui_run (ui_start ?a) [NewWindow, NewWindow, CloseWindow 0, CloseWindow 2] = Inr ?u"
    by (simp add: ui_start_def ui_step_def on_new_window_def shutdown_def numeral_3_eq_3)
  from window_list_lifecycle[OF h1 h2] h1 h2 show ?thesis by simp
qed

section \<open>Properties of the readiness poller\<close>

lemma running_fail:
  "\<not> fst (running h p) \<Longrightarrow> running h p = (False, [UrlOpen h, Log INFO, CurlHead h])"
  by (cases p) (auto simp: running_def)

lemma running_fail_iff:
  "\<not> fst (running h p) \<longleftrightarrow> (\<exists>rc. rc \<noteq> 0 \<and> p = URLError rc)"
  by (cases p) (auto simp: running_def)

lemma running_ok:
  "fst (running h p) \<Longrightarrow>
   running h p = (True, [UrlOpen h]) \<or> running h p = (True, [UrlOpen h, Log INFO, CurlHead h])"
  by (cases p) (auto simp: running_def)

text \<open>While every test fails, the loop does not look at which server it is asking.\<close>

lemma wait_loop_all_fail:
  assumes "\<forall>j. \<not> fst (running h (srv j))"
  shows "\<forall>m. wait_loop srv v h T M n st = wait_loop (\<lambda>_. URLError 1) v h T M m st"
  using assms
proof (induction srv v h T M n st rule: wait_loop.induct)
  case (1 srv v h T M n st)
  have f: "running h (srv n) = (False, [UrlOpen h, Log INFO, CurlHead h])"
    using "1.prems" by (simp add: running_fail)
  have f': "running h (URLError 1) = (False, [UrlOpen h, Log INFO, CurlHead h])"
    by (simp add: running_def)
  show ?case
  proof
    fix m
    show "wait_loop srv v h T M n st = wait_loop (\<lambda>_. URLError 1) v h T M m st"
    proof (cases "fst (snd (loop_body v T M st)) = Return")
      case True
      then show ?thesis
        by (subst wait_loop.simps, subst (2) wait_loop.simps) (simp add: f f' Let_def)
    next
      case False
      have "wait_loop srv v h T M (Suc n) (fst (loop_body v T M st)) =
            wait_loop (\<lambda>_. URLError 1) v h T M (Suc m) (fst (loop_body v T M st))"
        using "1.IH"[OF refl _ refl False "1.prems"] f by simp
      with False show ?thesis
        by (subst wait_loop.simps, subst (2) wait_loop.simps) (simp add: f f' Let_def)
    qed
  qed
qed

lemma wait_loop_never:
  "wait_loop (\<lambda>_. URLError 1) v h 20 3 0 \<lparr>time_spent = 0, load_retries = 0\<rparr> =
     (Return,
      concat (replicate 3
        (concat (replicate 21 [UrlOpen h, Log INFO, CurlHead h, Log INFO, Sleep 1]) @
         [Log WARNING, EvaluateJavascript v ''show_retry()''])) @
      concat (replicate 21 [UrlOpen h, Log INFO, CurlHead h, Log INFO, Sleep 1]) @
      [EvaluateJavascript v ''show_error()''])"
  by (simp add: wait_loop.simps loop_body_def running_def Let_def eval_nat_numeral)

lemma wait_loop_never_observed:
  "signals (snd (wait_loop (\<lambda>_. URLError 1) v h 20 3 0 \<lparr>time_spent = 0, load_retries = 0\<rparr>)) =
     [''show_retry()'', ''show_retry()'', ''show_retry()'', ''show_error()'']
   \<and> requests (snd (wait_loop (\<lambda>_. URLError 1) v h 20 3 0 \<lparr>time_spent = 0, load_retries = 0\<rparr>)) = 84
   \<and> sleeps (snd (wait_loop (\<lambda>_. URLError 1) v h 20 3 0 \<lparr>time_spent = 0, load_retries = 0\<rparr>)) = 84
   \<and> navigations (snd (wait_loop (\<lambda>_. URLError 1) v h 20 3 0 \<lparr>time_spent = 0, load_retries = 0\<rparr>)) = []"
  unfolding wait_loop_never by (simp add: eval_nat_numeral)










lemma loop_body_error:
  "T \<le> time_spent st \<Longrightarrow> \<not> load_retries st < M \<Longrightarrow>
   loop_body v T M st =
     (\<lparr>time_spent = Suc (time_spent st), load_retries = load_retries st\<rparr>, Return,
      [Log INFO, Sleep 1, EvaluateJavascript v ''show_error()''])"
  by (simp add: loop_body_def Let_def)








text \<open>
  C1. With the timeout of 20 and the retry cap of 3 that \<^verbatim>\<open>wait_for_server\<close> sets, and
  a server that never answers (every \<^verbatim>\<open>urlopen\<close> raises \<^verbatim>\<open>URLError\<close> and \<^verbatim>\<open>curl\<close>
  fails): the run is three periods of 21 requests, each request followed by a one-second
  sleep and each period closed by one \<^verbatim>\<open>show_retry()\<close>, then a fourth such period closed
  by one \<^verbatim>\<open>show_error()\<close>, and nothing after it: 84 requests, no navigation. In the loop
  body, when the counter passes the timeout and the retry count is below the cap, exactly
  the retry signal is emitted, the retry count goes up by one and the counter is reset to
  zero; at the cap, exactly the error signal is emitted and the function returns;
  otherwise the counter goes up by one and nothing is signalled.
\<close>

theorem wait_for_server_never_responds:
  assumes "\<forall>n. \<exists>rc. rc \<noteq> 0 \<and> srv n = URLError rc"
  shows "wait_for_server a srv saved_state =
           concat (replicate 3
             (concat (replicate 21
                [UrlOpen KOLIBRI_ROOT_URL, Log INFO, CurlHead KOLIBRI_ROOT_URL, Log INFO, Sleep 1]) @
              [Log WARNING, EvaluateJavascript (view a) ''show_retry()''])) @
           concat (replicate 21
             [UrlOpen KOLIBRI_ROOT_URL, Log INFO, CurlHead KOLIBRI_ROOT_URL, Log INFO, Sleep 1]) @
           [EvaluateJavascript (view a) ''show_error()'']
       \<and> signals (wait_for_server a srv saved_state) =
           [''show_retry()'', ''show_retry()'', ''show_retry()'', ''show_error()'']
       \<and> requests (wait_for_server a srv saved_state) = 84
       \<and> sleeps (wait_for_server a srv saved_state) = 84
       \<and> navigations (wait_for_server a srv saved_state) = []
       \<and> loop_body v 20 3 \<lparr>time_spent = ts, load_retries = lr\<rparr> =
           (if ts < 20 then
              (\<lparr>time_spent = ts + 1, load_retries = lr\<rparr>, Proceed, [Log INFO, Sleep 1])
            else if lr < 3 then
              (\<lparr>time_spent = 0, load_retries = lr + 1\<rparr>, Proceed,
               [Log INFO, Sleep 1, Log WARNING, EvaluateJavascript v ''show_retry()''])
            else
              (\<lparr>time_spent = ts + 1, load_retries = lr\<rparr>, Return,
               [Log INFO, Sleep 1, EvaluateJavascript v ''show_error()'']))"
proof -
  have fail: "\<forall>j. \<not> fst (running KOLIBRI_ROOT_URL (srv j))"
    using assms by (simp add: running_fail_iff)
  have loop: "wait_loop srv (view a) KOLIBRI_ROOT_URL 20 3 0 \<lparr>time_spent = 0, load_retries = 0\<rparr> =
      wait_loop (\<lambda>_. URLError 1) (view a) KOLIBRI_ROOT_URL 20 3 0
        \<lparr>time_spent = 0, load_retries = 0\<rparr>"
    using wait_loop_all_fail[OF fail] by blast
  have run: "wait_for_server a srv saved_state =
      snd (wait_loop (\<lambda>_. URLError 1) (view a) KOLIBRI_ROOT_URL 20 3 0
        \<lparr>time_spent = 0, load_retries = 0\<rparr>)"
    unfolding wait_for_server_def Let_def loop by (simp add: wait_loop_never)
  have body: "loop_body v 20 3 \<lparr>time_spent = ts, load_retries = lr\<rparr> =
           (if ts < 20 then
              (\<lparr>time_spent = ts + 1, load_retries = lr\<rparr>, Proceed, [Log INFO, Sleep 1])
            else if lr < 3 then
              (\<lparr>time_spent = 0, load_retries = lr + 1\<rparr>, Proceed,
               [Log INFO, Sleep 1, Log WARNING, EvaluateJavascript v ''show_retry()''])
            else
              (\<lparr>time_spent = ts + 1, load_retries = lr\<rparr>, Return,
               [Log INFO, Sleep 1, EvaluateJavascript v ''show_error()'']))"
    by (simp add: loop_body_def Let_def)
  from wait_loop_never_observed[of "view a" KOLIBRI_ROOT_URL] body show ?thesis
    unfolding run by (simp add: wait_loop_never)
qed

theorem wait_for_server_never_responds_witness:
  "signals (wait_for_server
      \<lparr>loader_url = ''file:///l.html'', kolibri_loaded = False, view = 0, windows = [0],
        port = 5000\<rparr> server_down Map.empty) =
     [''show_retry()'', ''show_retry()'', ''show_retry()'', ''show_error()'']
   \<and> requests (wait_for_server
      \<lparr>loader_url = ''file:///l.html'', kolibri_loaded = False, view = 0, windows = [0],
        port = 5000\<rparr> server_down Map.empty) = 84
   \<and> navigations (wait_for_server
      \<lparr>loader_url = ''file:///l.html'', kolibri_loaded = False, view = 0, windows = [0],
        port = 5000\<rparr> server_down Map.empty) = []"
proof -
  have h: "\<forall>n. \<exists>rc. rc \<noteq> 0 \<and> server_down n = URLError rc"
    by (simp add: server_down_def)
  from wait_for_server_never_responds[OF h] show ?thesis by blast
qed








section \<open>Properties of the start-up sequence\<close>

text \<open>
  What \<^verbatim>\<open>setUp\<close> does with a dictionary that has the key \<^verbatim>\<open>language\<close>: the page of the
  tag if it exists, otherwise the page of the text before the first hyphen of the tag if
  that exists, otherwise the English page, whose existence is not tested.
\<close>

lemma setUp_loader_url:
  assumes "linfo ''language'' = Some tag"
  shows "\<exists>a ev. setUp path_exists abspath linfo = Inr (a, ev) \<and>
           loader_url a = ''file://'' @
             (if path_exists (loader_page_of abspath tag) then loader_page_of abspath tag
              else if path_exists (loader_page_of abspath (split_first CHR ''-'' tag))
                then loader_page_of abspath (split_first CHR ''-'' tag)
              else loader_page_of abspath ''en_US'')"
  using assms by (simp add: setUp_def Let_def)

lemma split_first_absent: "c \<notin> set s \<Longrightarrow> split_first c s = s"
  by (induction s) (auto simp: split_first_def)

lemma setUp_underscore_tag:
  assumes "linfo ''language'' = Some tag" and "CHR ''-'' \<notin> set tag"
    and "\<not> path_exists (loader_page_of abspath tag)"
  shows "\<exists>a ev. setUp path_exists abspath linfo = Inr (a, ev) \<and>
           loader_url a = ''file://'' @ loader_page_of abspath ''en_US''"
  using assms by (simp add: setUp_def Let_def split_first_absent)

lemma setUp_after_exception:
  "\<exists>a ev. setUp path_exists abspath (fst (locale_info Raised)) = Inr (a, ev) \<and>
     loader_url a = ''file://'' @ loader_page_of abspath ''en_US''"
  by (simp add: setUp_def locale_info_def Let_def split_first_def)

text \<open>
  C2. With the tag \<^verbatim>\<open>es_ES\<close>, the pages \<^verbatim>\<open>_load-es.html\<close> and \<^verbatim>\<open>_load-en_US.html\<close> present
  and no page \<^verbatim>\<open>_load-es_ES.html\<close>, \<^verbatim>\<open>setUp\<close> opens the English page: the tag is cut at
  the first hyphen, it has none, and the page of the base language \<^verbatim>\<open>es\<close> is never
  tried, although it exists. The loop over \<^verbatim>\<open>languages_base\<close> cuts the same tag at the
  underscore and gets \<^verbatim>\<open>es\<close>.
\<close>

theorem setUp_skips_base_language_page:
  "setUp (\<lambda>p. p \<in> set [''/app/assets/_load-es.html'', ''/app/assets/_load-en_US.html''])
         (\<lambda>p. ''/app/'' @ p) [''language'' \<mapsto> ''es_ES'']
     = Inr (\<lparr>loader_url = ''file:///app/assets/_load-en_US.html'', kolibri_loaded = False,
              view = 0, windows = [0], port = 5000\<rparr>,
            [CreateWindow 0 ''file:///app/assets/_load-en_US.html'', Log INFO,
             StartServerThread 5000, StartLoadThread, ShowWindow 0])
   \<and> loader_page_of (\<lambda>p. ''/app/'' @ p) ''es'' = ''/app/assets/_load-es.html''
   \<and> languages_loop (\<lambda>p. False) ''locale'' [''es_ES''] = [''es'']"
  by (simp add: setUp_def loader_page_of_def path_join_def split_first_def start_server_def
      startswith_def endswith_def Let_def)

text \<open>
  C4. When no catalog is found, \<^verbatim>\<open>gettext.translation\<close> with \<^verbatim>\<open>fallback=True\<close> returns
  a \<^verbatim>\<open>NullTranslations\<close> object and raises nothing: \<^verbatim>\<open>locale_info\<close> is the empty
  dictionary, nothing is logged at warning level, and \<^verbatim>\<open>setUp\<close> raises \<^verbatim>\<open>KeyError\<close> at
  its first statement, on every file system, before any window is created.
\<close>

theorem setUp_without_catalog_raises_KeyError:
  "locale_info NullTranslations = (Map.empty, [Log INFO])
   \<and> setUp path_exists abspath (fst (locale_info NullTranslations)) = Inl (KeyError ''language'')"
  by (simp add: locale_info_def setUp_def)

section \<open>Properties of the packaging helper\<close>

lemma endswith_iff: "endswith s p \<longleftrightarrow> (\<exists>b. s = b @ p)"
proof
  assume "endswith s p"
  then have "s = take (length s - length p) s @ p"
    by (metis append_take_drop_id endswith_def)
  then show "\<exists>b. s = b @ p" ..
next
  assume "\<exists>b. s = b @ p"
  then show "endswith s p" by (auto simp: endswith_def)
qed

lemma contains_iff: "contains s p \<longleftrightarrow> (\<exists>a b. s = a @ p @ b)"
proof (induction s)
  case Nil
  then show ?case by auto
next
  case (Cons c cs)
  show ?case
  proof
    assume "contains (c # cs) p"
    then consider "startswith (c # cs) p" | "contains cs p" by auto
    then show "\<exists>a b. c # cs = a @ p @ b"
    proof cases
      case 1
      then obtain r where "c # cs = p @ r" by (auto simp: startswith_iff)
      then have "c # cs = [] @ p @ r" by simp
      then show ?thesis by blast
    next
      case 2
      with Cons.IH obtain a b where "cs = a @ p @ b" by blast
      then have "c # cs = (c # a) @ p @ b" by simp
      then show ?thesis by blast
    qed
  next
    assume "\<exists>a b. c # cs = a @ p @ b"
    then obtain a b where ab: "c # cs = a @ p @ b" by blast
    show "contains (c # cs) p"
    proof (cases a)
      case Nil
      with ab have "startswith (c # cs) p" by (auto simp: startswith_iff)
      then show ?thesis by simp
    next
      case (Cons x a')
      with ab have "cs = a' @ p @ b" by simp
      with Cons.IH have "contains cs p" by blast
      then show ?thesis by simp
    qed
  qed
qed

lemma exclude_loop_iff:
  "exclude_loop exs mp e \<longleftrightarrow> e \<or> (\<exists>ex \<in> set exs. contains mp ex)"
  by (induction exs arbitrary: e) auto

lemma files_loop_eq:
  "files_loop std_lib top_dir files script =
     script @ concat (map (\<lambda>nm. import_stmt (module_path std_lib top_dir nm))
       (filter (\<lambda>nm. endswith nm ''.py'' \<and>
                  \<not> (\<exists>ex \<in> set excludes. contains (module_path std_lib top_dir nm) ex)) files))"
  by (induction files arbitrary: script) (simp_all add: Let_def exclude_loop_iff)

lemma walk_loop_eq:
  "walk_loop std_lib walk script =
     script @ concat (map (\<lambda>(top_dir, nm). import_stmt (module_path std_lib top_dir nm))
       (filter (\<lambda>(top_dir, nm). endswith nm ''.py'' \<and>
                  \<not> (\<exists>ex \<in> set excludes. contains (module_path std_lib top_dir nm) ex))
          (concat (map (\<lambda>(top_dir, dirs, files). map (Pair top_dir) files) walk))))"
proof (induction walk arbitrary: script)
  case Nil
  then show ?case by simp
next
  case (Cons t walk)
  obtain top_dir dirs files where t: "t = (top_dir, dirs, files)"
    by (cases t) auto
  show ?case
    by (simp add: t Cons.IH files_loop_eq filter_map comp_def map_concat)
qed

text \<open>
  C7. The text that \<^verbatim>\<open>generate_stdlib_imports\<close> writes is, for the files of the walk in the
  order \<^verbatim>\<open>os.walk\<close> yields them, the concatenation of one statement
  \<^verbatim>\<open>try: import m except: pass\<close>, laid out as in the template of the source, for every
  file whose name ends in \<^verbatim>\<open>.py\<close> and whose module path \<open>m\<close> contains no entry of the
  exclusion list as a substring; no other file contributes any text. The module path has
  lost its last three characters before it is tested, so the entry \<^verbatim>\<open>__init__.py\<close> of the
  list matches no file: for a package \<^verbatim>\<open>json\<close> that holds only \<^verbatim>\<open>__init__.py\<close>, a name
  on the list, the statement importing \<^verbatim>\<open>json.__init__\<close> is written.
\<close>

theorem generate_stdlib_imports_writes_init_py:
  "generate_stdlib_imports std_lib walk =
     concat (map (\<lambda>(top_dir, nm).
                    [NL] @ ''try:'' @ [NL] @
                    ''    import '' @ module_path std_lib top_dir nm @ [NL] @
                    ''except:'' @ [NL] @
                    ''    pass'' @ [NL] @
                    ''    '')
       (filter (\<lambda>(top_dir, nm). (\<exists>b. nm = b @ ''.py'') \<and>
                  \<not> (\<exists>ex \<in> set excludes. \<exists>a b. module_path std_lib top_dir nm = a @ ex @ b))
          (concat (map (\<lambda>(top_dir, dirs, files). map (Pair top_dir) files) walk))))
   \<and> ''__init__.py'' \<in> set excludes
   \<and> generate_stdlib_imports ''/lib'' [(''/lib'', [''json''], []), (''/lib/json'', [], [''__init__.py''])] =
       [NL] @ ''try:'' @ [NL] @
       ''    import json.__init__'' @ [NL] @
       ''except:'' @ [NL] @
       ''    pass'' @ [NL] @
       ''    ''"
proof -
  have general: "generate_stdlib_imports std_lib walk =
     concat (map (\<lambda>(top_dir, nm).
                    [NL] @ ''try:'' @ [NL] @
                    ''    import '' @ module_path std_lib top_dir nm @ [NL] @
                    ''except:'' @ [NL] @
                    ''    pass'' @ [NL] @
                    ''    '')
       (filter (\<lambda>(top_dir, nm). (\<exists>b. nm = b @ ''.py'') \<and>
                  \<not> (\<exists>ex \<in> set excludes. \<exists>a b. module_path std_lib top_dir nm = a @ ex @ b))
          (concat (map (\<lambda>(top_dir, dirs, files). map (Pair top_dir) files) walk))))"
    unfolding generate_stdlib_imports_def walk_loop_eq endswith_iff contains_iff import_stmt_def
    by simp
  have listed: "''__init__.py'' \<in> set excludes"
    by (simp add: excludes_def)
  have written: "generate_stdlib_imports ''/lib''
       [(''/lib'', [''json''], []), (''/lib/json'', [], [''__init__.py''])] =
       [NL] @ ''try:'' @ [NL] @
       ''    import json.__init__'' @ [NL] @
       ''except:'' @ [NL] @
       ''    pass'' @ [NL] @
       ''    ''"
    by (simp add: generate_stdlib_imports_def import_stmt_def excludes_def module_path_def
        path_join_def slice_def slice_index_def replace_char_def endswith_def startswith_def)
  from general listed written show ?thesis by (intro conjI)
qed

theorem generate_stdlib_imports_writes_init_py_witness:
  "generate_stdlib_imports ''/lib''
     [(''/lib'', [''json''], [''os.py'', ''this.py'', ''_struct.so'']),
      (''/lib/json'', [], [''__init__.py'', ''decoder.py''])] =
   [NL] @ ''try:'' @ [NL] @ ''    import os'' @ [NL] @ ''except:'' @ [NL] @
     ''    pass'' @ [NL] @ ''    '' @
   [NL] @ ''try:'' @ [NL] @ ''    import json.__init__'' @ [NL] @ ''except:'' @ [NL] @
     ''    pass'' @ [NL] @ ''    '' @
   [NL] @ ''try:'' @ [NL] @ ''    import json.decoder'' @ [NL] @ ''except:'' @ [NL] @
     ''    pass'' @ [NL] @ ''    ''"
  using generate_stdlib_imports_writes_init_py
    [of "''/lib''"
        "[(''/lib'', [''json''], [''os.py'', ''this.py'', ''_struct.so'']),
          (''/lib/json'', [], [''__init__.py'', ''decoder.py''])]",
     THEN conjunct1, unfolded endswith_iff[symmetric] contains_iff[symmetric]]
  by (simp add: excludes_def module_path_def path_join_def slice_def slice_index_def
      replace_char_def endswith_def startswith_def)

end
